theory Spec2Isabelle
  imports Main "HOL-Library.Sublist"
begin

section \<open>Python string primitives used by the enumeration script\<close>

text \<open>
  A Python \<open>str\<close> is modelled as a \<open>string\<close> whose characters are the code points
  below 256. The character classes below are Python's own on that range:
  \<open>str.isspace\<close> (used by \<open>strip()\<close>, by \<open>split()\<close> without argument and by the
  regular expression class \<open>\s\<close>), \<open>str.isalnum\<close> plus the underscore (the class
  \<open>\w\<close>) and \<open>str.lower\<close>.
\<close>

definition isspace :: "char \<Rightarrow> bool" where
  "isspace c = (c \<in> set [CHR 0x09, CHR 0x0A, CHR 0x0B, CHR 0x0C, CHR 0x0D,
                          CHR 0x1C, CHR 0x1D, CHR 0x1E, CHR 0x1F, CHR 0x20,
                          CHR 0x85, CHR 0xA0])"

definition isword :: "char \<Rightarrow> bool" where
  "isword c =
     (let n = (of_char c :: nat) in
        (48 \<le> n \<and> n \<le> 57) \<or> (65 \<le> n \<and> n \<le> 90) \<or> n = 95 \<or> (97 \<le> n \<and> n \<le> 122)
        \<or> n = 170 \<or> n = 178 \<or> n = 179 \<or> n = 181 \<or> n = 185 \<or> n = 186
        \<or> (188 \<le> n \<and> n \<le> 190) \<or> (192 \<le> n \<and> n \<le> 214)
        \<or> (216 \<le> n \<and> n \<le> 246) \<or> (248 \<le> n \<and> n \<le> 255))"

definition lower_char :: "char \<Rightarrow> char" where
  "lower_char c =
     (let n = (of_char c :: nat) in
        if (65 \<le> n \<and> n \<le> 90) \<or> (192 \<le> n \<and> n \<le> 214) \<or> (216 \<le> n \<and> n \<le> 222)
        then char_of (n + 32) else c)"

definition lower :: "string \<Rightarrow> string" where
  "lower s = map lower_char s"

text \<open>\<open>s.strip()\<close>: whitespace removed from both ends.\<close>

definition strip :: "string \<Rightarrow> string" where
  "strip s = rev (dropWhile isspace (rev (dropWhile isspace s)))"

text \<open>\<open>s.startswith(p)\<close>.\<close>

definition startswith :: "string \<Rightarrow> string \<Rightarrow> bool" where
  "startswith s p = (take (length p) s = p)"

text \<open>\<open>sub in s\<close> on strings: \<open>sub\<close> occurs in \<open>s\<close> as a contiguous block.\<close>

fun py_in :: "string \<Rightarrow> string \<Rightarrow> bool" where
  "py_in sub [] = (sub = [])"
| "py_in sub (x # xs) = (startswith (x # xs) sub \<or> py_in sub xs)"

text \<open>
  \<open>s.split(sep)\<close> for a separator of one character (the script only uses newline,
  colon, comma and slash): a cut at every occurrence, empty pieces kept, so the
  result has one element more than \<open>s\<close> has separators and is never empty (the
  \<open>[]\<close> branch of the case below is never taken).
\<close>

fun split_on :: "char \<Rightarrow> string \<Rightarrow> string list" where
  "split_on sep [] = [[]]"
| "split_on sep (x # xs) =
     (if x = sep then [] # split_on sep xs
      else (case split_on sep xs of
              [] \<Rightarrow> [[x]]
            | piece # pieces \<Rightarrow> (x # piece) # pieces))"

text \<open>
  \<open>s.split()\<close> without argument: the maximal runs of non-whitespace characters, in
  order; the empty string and a string of whitespace give the empty list. The scan
  carries the word read so far (\<open>w\<close>) and closes it at the next whitespace character
  or at the end of the string.
\<close>

fun split_ws_from :: "string \<Rightarrow> string \<Rightarrow> string list" where
  "split_ws_from w [] = (if w = [] then [] else [w])"
| "split_ws_from w (c # cs) =
     (if isspace c
      then (if w = [] then split_ws_from [] cs else w # split_ws_from [] cs)
      else split_ws_from (w @ [c]) cs)"

definition split_ws :: "string \<Rightarrow> string list" where
  "split_ws s = split_ws_from [] s"

section \<open>ListParser: \<open>parse_module_list\<close>\<close>

text \<open>
  The body of the \<open>for line in lines\<close> loop, on the list \<open>modules\<close> collected so far.
  The two \<open>continue\<close> statements leave \<open>modules\<close> as it is; \<open>parts[0]\<close> is read only
  behind the test that \<open>parts\<close> is not empty.
\<close>

definition parse_module_line :: "string \<Rightarrow> string list \<Rightarrow> string \<Rightarrow> string list" where
  "parse_module_line module_type modules line0 =
     (let line = strip line0 in
      if line = [] \<or> startswith line ''='' \<or> startswith line ''[''
      then modules
      else if py_in ''Matching Modules'' line \<or> py_in ''Name'' line \<or> py_in ''----'' line
      then modules
      else
        let parts = split_ws line in
        if parts \<noteq> [] \<and> py_in ''/'' (hd parts)
        then
          let module_path = hd parts;
              module_path =
                (if startswith module_path (module_type @ ''/'')
                 then drop (length module_type + 1) module_path
                 else module_path)
          in modules @ [module_path]
        else modules)"

definition parse_module_list :: "string \<Rightarrow> string \<Rightarrow> string list" where
  "parse_module_list output module_type =
     foldl (parse_module_line module_type) [] (split_on CHR 0x0A output)"

section \<open>CategoryFilter: the keyword tables and the two keyword policies\<close>

definition TOP_TECHNOLOGIES :: "string list" where
  "TOP_TECHNOLOGIES =
     [''windows'', ''linux'', ''unix'', ''macos'', ''osx'',
      ''apache'', ''iis'', ''php'', ''java'', ''python'',
      ''ssh'', ''smb'', ''rdp'', ''http'', ''https'']"

definition TOP_SERVICES :: "string list" where
  "TOP_SERVICES =
     [''http'', ''https'', ''smb'', ''ssh'', ''ftp'', ''telnet'', ''smtp'', ''pop3'', ''imap'',
      ''dns'', ''snmp'', ''ldap'', ''mysql'', ''mssql'', ''postgres'', ''oracle'', ''mongodb'',
      ''redis'', ''memcached'', ''vnc'', ''rdp'', ''nfs'', ''rsync'', ''rpc'', ''tftp'',
      ''sip'', ''rtsp'', ''socks'', ''proxy'', ''ssl'', ''tls'', ''ipsec'', ''vpn'',
      ''docker'', ''kubernetes'', ''jenkins'', ''gitlab'', ''jboss'', ''tomcat'', ''weblogic'',
      ''elasticsearch'', ''kibana'', ''splunk'', ''grafana'', ''prometheus'', ''netbios'',
      ''kerberos'', ''winrm'', ''wmi'', ''powershell'']"

text \<open>Python's \<open>any\<close> over the values of a generator expression.\<close>

fun py_any :: "bool list \<Rightarrow> bool" where
  "py_any [] = False"
| "py_any (b # bs) = (b \<or> py_any bs)"

text \<open>
  Both filters run the same loop: \<open>filtered\<close> starts empty and a module whose
  lowercased text contains a keyword of the table is appended to it.
\<close>

definition filter_exploits_payloads :: "string list \<Rightarrow> string list" where
  "filter_exploits_payloads modules =
     foldl (\<lambda>filtered module.
              let module_lower = lower module in
              if py_any (map (\<lambda>tech. py_in tech module_lower) TOP_TECHNOLOGIES)
              then filtered @ [module] else filtered)
       [] modules"

definition filter_auxiliary :: "string list \<Rightarrow> string list" where
  "filter_auxiliary modules =
     (let filtered =
        foldl (\<lambda>filtered module.
                 let module_lower = lower module in
                 if py_any (map (\<lambda>service. py_in service module_lower) TOP_SERVICES)
                 then filtered @ [module] else filtered)
          [] modules
      in if length filtered > 50 then take 50 filtered else filtered)"

section \<open>Aggregator: \<open>organize_modules_by_category\<close>\<close>

text \<open>
  A Python dictionary keeps its keys in insertion order; it is modelled as an
  association list with distinct keys. \<open>dict_append d k v\<close> is
  \<open>d[k].append(v)\<close> on a \<open>defaultdict(list)\<close>: a missing key is created with an
  empty list, at the end. \<open>dict_set d k v\<close> is the assignment \<open>d[k] = v\<close>.
\<close>

fun dict_append :: "(string \<times> string list) list \<Rightarrow> string \<Rightarrow> string \<Rightarrow> (string \<times> string list) list" where
  "dict_append [] k v = [(k, [v])]"
| "dict_append ((k', vs) # d) k v =
     (if k' = k then (k', vs @ [v]) # d else (k', vs) # dict_append d k v)"

fun dict_set :: "(string \<times> 'v) list \<Rightarrow> string \<Rightarrow> 'v \<Rightarrow> (string \<times> 'v) list" where
  "dict_set [] k v = [(k, v)]"
| "dict_set ((k', v') # d) k v =
     (if k' = k then (k', v) # d else (k', v') # dict_set d k v)"

definition organize_step :: "(string \<times> string list) list \<Rightarrow> string \<Rightarrow> (string \<times> string list) list" where
  "organize_step organized module =
     (let parts = split_on CHR ''/'' module in
      if length parts > 1
      then (let category = hd parts in dict_append organized category module)
      else dict_append organized ''other'' module)"

definition organize_modules_by_category :: "string list \<Rightarrow> (string \<times> string list) list" where
  "organize_modules_by_category modules = foldl organize_step [] modules"

section \<open>CommandRunner: \<open>run_msfconsole_command\<close>\<close>

text \<open>
  The exceptions the script can meet, all subclasses of \<open>Exception\<close>, each with
  the message \<open>str(e)\<close> gives: \<open>subprocess.TimeoutExpired\<close>, \<open>IndexError\<close>, and any
  other one (\<open>FileNotFoundError\<close> when the tool is missing, \<open>OSError\<close>,
  \<open>UnicodeEncodeError\<close>, ...).
  The environment has two parts. \<open>subprocess.run\<close> is a function from the argument
  vector to either the exception it raises or the standard output it captured.
  \<open>print\<close> is a function from the text to print to either the exception it raises
  (the output stream is closed, or cannot encode the text) or nothing.
\<close>

datatype exn = TimeoutExpired string | IndexError string | Exception string

fun exn_str :: "exn \<Rightarrow> string" where
  "exn_str (TimeoutExpired msg) = msg"
| "exn_str (IndexError msg) = msg"
| "exn_str (Exception msg) = msg"

type_synonym subprocess = "string list \<Rightarrow> exn + string"

type_synonym printer = "string \<Rightarrow> exn + unit"

text \<open>
  The \<open>try\<close> block and its two handlers. Each handler prints its diagnostic and
  then returns the empty string; an exception that \<open>print\<close> raises inside a handler
  is caught by no clause of the same \<open>try\<close> and reaches the caller.
\<close>

definition run_msfconsole_command :: "subprocess \<Rightarrow> printer \<Rightarrow> string \<Rightarrow> exn + string" where
  "run_msfconsole_command subprocess_run print command =
     (let cmd = [''msfconsole'', ''-q'', ''-x'', command @ ''; exit''] in
      case subprocess_run cmd of
        Inr stdout \<Rightarrow> Inr stdout
      | Inl (TimeoutExpired msg) \<Rightarrow>
          (case print (''Command timed out: '' @ command) of
             Inl raised \<Rightarrow> Inl raised
           | Inr u \<Rightarrow> Inr '''')
      | Inl e \<Rightarrow>
          (case print (''Error running command: '' @ exn_str e) of
             Inl raised \<Rightarrow> Inl raised
           | Inr u \<Rightarrow> Inr ''''))"

section \<open>DetailParser: \<open>get_module_info\<close>\<close>

text \<open>
  \<open>s.replace(old, new)\<close>: every occurrence of \<open>old\<close>, found from the left and not
  overlapping, becomes \<open>new\<close>; an empty \<open>old\<close> matches before every character and
  at the end.
\<close>

function replace :: "string \<Rightarrow> string \<Rightarrow> string \<Rightarrow> string" where
  "replace old new [] = (if old = [] then new else [])"
| "replace old new (x # xs) =
     (if old = [] then new @ x # replace old new xs
      else if startswith (x # xs) old
      then new @ replace old new (drop (length old) (x # xs))
      else x # replace old new xs)"
  by pat_completeness auto
termination
  by (relation "measure (\<lambda>(old, new, s). length s)") auto

text \<open>
  \<open>re.search(r'Rank:\s+(\w+)', line)\<close>, giving group 1 of the leftmost match.
  At one position the pattern matches when \<open>Rank:\<close> is followed by at least one
  whitespace character and the run of whitespace by a word character; the group is
  then the whole run of word characters (both \<open>+\<close> are greedy, and giving back
  whitespace never helps since no whitespace character is a word character).
\<close>

definition match_rank_at :: "string \<Rightarrow> string option" where
  "match_rank_at s =
     (if startswith s ''Rank:''
      then (let rest = drop 5 s;
                spaces = takeWhile isspace rest;
                word = takeWhile isword (dropWhile isspace rest)
            in if spaces \<noteq> [] \<and> word \<noteq> [] then Some word else None)
      else None)"

fun search_rank :: "string \<Rightarrow> string option" where
  "search_rank [] = None"
| "search_rank (x # xs) =
     (case match_rank_at (x # xs) of Some word \<Rightarrow> Some word | None \<Rightarrow> search_rank xs)"

text \<open>\<open>xs[i]\<close> for an index that is not negative: out of range raises \<open>IndexError\<close>.\<close>

definition py_index :: "'a list \<Rightarrow> nat \<Rightarrow> exn + 'a" where
  "py_index xs i =
     (if i < length xs then Inr (xs ! i) else Inl (IndexError ''list index out of range''))"

record module_info =
  path :: string
  name :: string
  description :: string
  rank :: string
  platform :: "string list"
  targets :: "string list"
  options :: "string list"
  payloads :: "string list"

text \<open>
  The body of the loop over the lines, on the pair of \<open>info\<close> and
  \<open>current_section\<close> (\<open>None\<close> or \<open>'description'\<close>). The branches are the source's
  \<open>if\<close>/\<open>elif\<close> chain in its order.
\<close>

definition info_line :: "module_info \<times> string option \<Rightarrow> string \<Rightarrow> exn + (module_info \<times> string option)" where
  "info_line st line0 =
     (let info = fst st; current_section = snd st; line = strip line0 in
      if startswith line ''Name:''
      then Inr (info\<lparr>name := strip (replace ''Name:'' '''' line)\<rparr>, current_section)
      else if py_in ''Description:'' line
      then Inr (info, Some ''description'')
      else if current_section = Some ''description'' \<and> line \<noteq> [] \<and> \<not> startswith line ''Module''
      then Inr (info\<lparr>description := line\<rparr>, None)
      else if py_in ''Rank:'' line
      then (case search_rank line of
              Some word \<Rightarrow> Inr (info\<lparr>rank := lower word\<rparr>, current_section)
            | None \<Rightarrow> Inr (info, current_section))
      else if py_in ''Platform:'' line \<or> py_in ''Available targets:'' line
      then
        (let parts = split_on CHR '':'' line in
         if length parts > 1
         then (case py_index parts 1 of
                 Inl e \<Rightarrow> Inl e
               | Inr part \<Rightarrow>
                   let platforms = split_on CHR '','' (strip part) in
                   Inr (info\<lparr>platform :=
                          platform info @ map strip (filter (\<lambda>p. strip p \<noteq> []) platforms)\<rparr>,
                        current_section))
         else Inr (info, current_section))
      else Inr (info, current_section))"

fun info_lines :: "module_info \<times> string option \<Rightarrow> string list \<Rightarrow> exn + (module_info \<times> string option)" where
  "info_lines st [] = Inr st"
| "info_lines st (line # rest) =
     (case info_line st line of Inl e \<Rightarrow> Inl e | Inr st' \<Rightarrow> info_lines st' rest)"

text \<open>
  The field extraction of \<open>get_module_info\<close>, from the text the command returned:
  the initial \<open>info\<close>, the loop, \<open>return info\<close>.
\<close>

definition parse_module_info :: "string \<Rightarrow> string \<Rightarrow> exn + module_info" where
  "parse_module_info module_path output =
     (let info = \<lparr>path = module_path, name = '''', description = '''', rank = '''',
                   platform = [], targets = [], options = [], payloads = []\<rparr>
      in case info_lines (info, None) (split_on CHR 0x0A output) of
           Inl e \<Rightarrow> Inl e
         | Inr st \<Rightarrow> Inr (fst st))"

definition get_module_info :: "subprocess \<Rightarrow> printer \<Rightarrow> string \<Rightarrow> string \<Rightarrow> exn + module_info" where
  "get_module_info subprocess_run print module_type module_path =
     (let full_path = module_type @ ''/'' @ module_path in
      case run_msfconsole_command subprocess_run print (''info '' @ full_path) of
        Inl e \<Rightarrow> Inl e
      | Inr output \<Rightarrow> parse_module_info module_path output)"

section \<open>Driver: \<open>enumerate_all_modules\<close>\<close>

definition module_types :: "string list" where
  "module_types = [''encoder'', ''evasion'', ''nop'', ''post'', ''exploit'', ''payload'', ''auxiliary'']"

text \<open>The \<open>if\<close>/\<open>elif\<close> that selects the policy of an item type.\<close>

definition apply_filtering :: "string \<Rightarrow> string list \<Rightarrow> string list" where
  "apply_filtering module_type modules =
     (if module_type \<in> set [''exploit'', ''payload''] then filter_exploits_payloads modules
      else if module_type = ''auxiliary'' then filter_auxiliary modules
      else modules)"

record metadata =
  generated_at :: "string option"
  total_modules :: int
  by_type :: "(string \<times> int) list"

record report =
  metadata :: metadata
  modules :: "(string \<times> (string \<times> string list) list) list"

text \<open>
  \<open>str(n)\<close> for the length of a list: the decimal digits of a natural number.
\<close>

function str_nat :: "nat \<Rightarrow> string" where
  "str_nat n =
     (if n < 10 then [char_of (48 + n)]
      else str_nat (n div 10) @ [char_of (48 + n mod 10)])"
  by pat_completeness auto
termination
  by (relation "measure (\<lambda>n. n)") auto

declare str_nat.simps [simp del]

text \<open>
  The source's \<open>if\<close>/\<open>elif\<close> filters and prints in each branch. \<open>apply_filtering\<close>
  above is the assignment of each branch; \<open>print_filtered\<close> is the message that
  follows it, on the filtered list. The types \<open>encoder\<close>, \<open>evasion\<close>, \<open>nop\<close> and
  \<open>post\<close> take no branch and print nothing.
\<close>

definition print_filtered :: "printer \<Rightarrow> string \<Rightarrow> string list \<Rightarrow> exn + unit" where
  "print_filtered print module_type kept =
     (if module_type \<in> set [''exploit'', ''payload'']
      then print (''Filtered to '' @ str_nat (length kept) @ '' '' @ module_type
                   @ '' modules (top technologies)'')
      else if module_type = ''auxiliary''
      then print (''Filtered to '' @ str_nat (length kept) @ '' '' @ module_type
                   @ '' modules (top services)'')
      else Inr ())"

text \<open>
  The body of the loop over the item types, on the report built so far. The source
  assigns the parsed list and then the filtered list to the same variable
  \<open>modules\<close>; they are \<open>found\<close> and \<open>kept\<close> here, and every use after the filtering
  reads \<open>kept\<close>. Every statement that can raise (the three \<open>print\<close> calls and the
  call of the runner) ends the body with that exception.
\<close>

definition enumerate_step :: "subprocess \<Rightarrow> printer \<Rightarrow> report \<Rightarrow> string \<Rightarrow> exn + report" where
  "enumerate_step subprocess_run print result module_type =
     (case print (CHR 0x0A # ''Enumerating '' @ module_type @ '' modules...'') of
        Inl e \<Rightarrow> Inl e
      | Inr u \<Rightarrow>
     (case run_msfconsole_command subprocess_run print (''search type:'' @ module_type) of
        Inl e \<Rightarrow> Inl e
      | Inr output \<Rightarrow>
     (let found = parse_module_list output module_type in
      case print (''Found '' @ str_nat (length found) @ '' '' @ module_type @ '' modules'') of
        Inl e \<Rightarrow> Inl e
      | Inr u \<Rightarrow>
     (let kept = apply_filtering module_type found in
      case print_filtered print module_type kept of
        Inl e \<Rightarrow> Inl e
      | Inr u \<Rightarrow>
          let organized = organize_modules_by_category kept;
              md = metadata result;
              result = result\<lparr>modules := dict_set (modules result) module_type organized\<rparr>;
              result = result\<lparr>metadata :=
                         md\<lparr>by_type := dict_set (by_type md) module_type (int (length kept))\<rparr>\<rparr>;
              md = metadata result;
              result = result\<lparr>metadata :=
                         md\<lparr>total_modules := total_modules md + int (length kept)\<rparr>\<rparr>
          in Inr result))))"

fun enumerate_loop :: "subprocess \<Rightarrow> printer \<Rightarrow> report \<Rightarrow> string list \<Rightarrow> exn + report" where
  "enumerate_loop subprocess_run print result [] = Inr result"
| "enumerate_loop subprocess_run print result (module_type # rest) =
     (case enumerate_step subprocess_run print result module_type of
        Inl e \<Rightarrow> Inl e
      | Inr result \<Rightarrow> enumerate_loop subprocess_run print result rest)"

text \<open>
  \<open>now\<close> is \<open>datetime.utcnow().isoformat()\<close> at the moment the loop has ended.
\<close>

definition enumerate_all_modules :: "subprocess \<Rightarrow> printer \<Rightarrow> string \<Rightarrow> exn + report" where
  "enumerate_all_modules subprocess_run print now =
     (case print ''Starting Metasploit module enumeration...'' of
        Inl e \<Rightarrow> Inl e
      | Inr u \<Rightarrow>
     (let result = \<lparr>metadata = \<lparr>generated_at = None, total_modules = 0, by_type = []\<rparr>,
                     modules = []\<rparr>
      in case enumerate_loop subprocess_run print result module_types of
           Inl e \<Rightarrow> Inl e
         | Inr result \<Rightarrow>
             Inr (result\<lparr>metadata := (metadata result)\<lparr>generated_at := Some (now @ ''Z'')\<rparr>\<rparr>)))"

section \<open>Vocabulary of the statements\<close>

text \<open>
  The specification's keyword test, in its own words: an identifier is kept when
  its lowercased form contains at least one keyword of the vocabulary as a
  substring.
\<close>

definition contains_keyword :: "string list \<Rightarrow> string \<Rightarrow> bool" where
  "contains_keyword vocabulary identifier =
     (\<exists>keyword \<in> set vocabulary. sublist keyword (lower identifier))"

text \<open>
  The category key \<open>organize_modules_by_category\<close> files an identifier under: the
  two branches of its loop body.
\<close>

definition category_of :: "string \<Rightarrow> string" where
  "category_of module =
     (let parts = split_on CHR ''/'' module in
      if length parts > 1 then hd parts else ''other'')"

text \<open>
  The filtered identifier sequence of one item type in a run of the driver: the
  listing the runner returns for the type's query, parsed, then filtered by the
  type's policy.
\<close>

definition filtered_modules :: "subprocess \<Rightarrow> printer \<Rightarrow> string \<Rightarrow> string list" where
  "filtered_modules subprocess_run print module_type =
     (case run_msfconsole_command subprocess_run print (''search type:'' @ module_type) of
        Inl e \<Rightarrow> []
      | Inr output \<Rightarrow> apply_filtering module_type (parse_module_list output module_type))"

section \<open>Facts about the string primitives\<close>

lemma startswith_prefix: "startswith s p = prefix p s"
  by (auto simp: startswith_def prefix_def) (metis append_take_drop_id)

lemma startswith_split: "startswith s p \<Longrightarrow> s = p @ drop (length p) s"
  unfolding startswith_def by (metis append_take_drop_id)

lemma py_in_sublist: "py_in sub s = sublist sub s"
  by (induction s) (auto simp: startswith_prefix sublist_Cons_right)

lemma py_in_char: "py_in [c] s = (c \<in> set s)"
  by (induction s) (auto simp: startswith_def)

section \<open>ListParser: which identifiers are returned\<close>

text \<open>
  One line either leaves the collected list alone or appends one identifier: the
  first token of the trimmed line, which contains a slash, as it is or without its
  leading type prefix.
\<close>

lemma parse_module_line_cases:
  "parse_module_line ty acc l = acc \<or>
   (\<exists>token. split_ws (strip l) \<noteq> [] \<and> token = hd (split_ws (strip l)) \<and>
      CHR ''/'' \<in> set token \<and>
      ((\<not> startswith token (ty @ ''/'') \<and> parse_module_line ty acc l = acc @ [token]) \<or>
       (\<exists>m. token = ty @ ''/'' @ m \<and> parse_module_line ty acc l = acc @ [m])))"
proof -
  let ?tok = "hd (split_ws (strip l))"
  show ?thesis
  proof (cases "startswith ?tok (ty @ ''/'')")
    case True
    from startswith_split [OF True]
    have "?tok = ty @ ''/'' @ drop (length ty + 1) ?tok" by simp
    with True show ?thesis
      by (auto simp: parse_module_line_def Let_def py_in_char)
  next
    case False
    then show ?thesis
      by (auto simp: parse_module_line_def Let_def py_in_char)
  qed
qed

lemma parse_module_fold:
  "m \<in> set (foldl (parse_module_line ty) acc ls) \<Longrightarrow>
   m \<in> set acc \<or>
   (\<exists>l \<in> set ls. \<exists>token. split_ws (strip l) \<noteq> [] \<and> token = hd (split_ws (strip l)) \<and>
        CHR ''/'' \<in> set token \<and>
        ((\<not> startswith token (ty @ ''/'') \<and> m = token) \<or> token = ty @ ''/'' @ m))"
proof (induction ls arbitrary: acc)
  case Nil
  then show ?case by simp
next
  case (Cons l ls)
  from Cons.prems
  have "m \<in> set (foldl (parse_module_line ty) (parse_module_line ty acc l) ls)"
    by simp
  from Cons.IH [OF this] show ?case
    using parse_module_line_cases [of ty acc l] by auto
qed

text \<open>
  C1 (as stated, refuted): a line whose first token is the type prefix followed by
  a name without any further slash passes the test on the token, loses the prefix,
  and is returned without a slash. The listing \<open>exploit/foo\<close> read for the type
  \<open>exploit\<close> gives the identifier \<open>foo\<close>.
\<close>

theorem parse_module_list_slash_counterexample:
  "parse_module_list ''exploit/foo'' ''exploit'' = [''foo''] \<and> CHR ''/'' \<notin> set ''foo''"
  by code_simp

text \<open>
  C1 (amended): every identifier returned by \<open>parse_module_list\<close> comes from the
  first whitespace-delimited token of a trimmed line of the listing, and that token
  contains at least one \<open>/\<close>. The identifier is the token itself when the token does
  not start with the type followed by \<open>/\<close>, and otherwise the token without that
  prefix. The slash is tested on the token before the prefix is removed, so the
  identifier itself contains a \<open>/\<close> in the first case and need not in the second.
\<close>

theorem parse_module_list_token_slash:
  assumes "m \<in> set (parse_module_list output module_type)"
  shows "\<exists>line \<in> set (split_on CHR 0x0A output). \<exists>token.
           split_ws (strip line) \<noteq> [] \<and> token = hd (split_ws (strip line)) \<and>
           CHR ''/'' \<in> set token \<and>
           ((\<not> startswith token (module_type @ ''/'') \<and> m = token) \<or>
            token = module_type @ ''/'' @ m)"
  using parse_module_fold [of m module_type "[]" "split_on CHR 0x0A output"] assms
  by (simp add: parse_module_list_def)

theorem parse_module_list_token_slash_witness:
  "''foo'' \<in> set (parse_module_list ''  exploit/foo  normal'' ''exploit'') \<and>
   (\<exists>line \<in> set (split_on CHR 0x0A ''  exploit/foo  normal''). \<exists>token.
           split_ws (strip line) \<noteq> [] \<and> token = hd (split_ws (strip line)) \<and>
           CHR ''/'' \<in> set token \<and>
           ((\<not> startswith token (''exploit'' @ ''/'') \<and> ''foo'' = token) \<or>
            token = ''exploit'' @ ''/'' @ ''foo''))"
proof -
  have h: "''foo'' \<in> set (parse_module_list ''  exploit/foo  normal'' ''exploit'')"
    by code_simp
  from h and parse_module_list_token_slash [OF h] show ?thesis
    by (rule conjI)
qed

text \<open>
  C2 (as stated, refuted): on the listing of the scenario, read for the type
  \<open>exploit\<close>, the result is not the one-element list \<open>[windows/smb/ms17_010]\<close>. The
  banner, the rule of \<open>=\<close> and the empty line are skipped, and both table rows are
  kept, since no test compares the prefix of a token with the type asked for.
\<close>

theorem parse_module_list_scenario_counterexample:
  "parse_module_list
     ''Matching Modules\<newline>================\<newline>\<newline>   exploit/windows/smb/ms17_010  2017-03-14  excellent  EternalBlue\<newline>   auxiliary/unrelated/foo        normal     Misc\<newline>''
     ''exploit''
   \<noteq> [''windows/smb/ms17_010'']"
  by code_simp

text \<open>
  C2 (amended): on the listing of the scenario, read for the type \<open>exploit\<close>,
  \<open>parse_module_list\<close> returns the two identifiers \<open>windows/smb/ms17_010\<close> (the type
  prefix removed) and \<open>auxiliary/unrelated/foo\<close> (kept with its own prefix, which is
  not the type asked for), in this order.
\<close>

theorem parse_module_list_scenario:
  "parse_module_list
     ''Matching Modules\<newline>================\<newline>\<newline>   exploit/windows/smb/ms17_010  2017-03-14  excellent  EternalBlue\<newline>   auxiliary/unrelated/foo        normal     Misc\<newline>''
     ''exploit''
   = [''windows/smb/ms17_010'', ''auxiliary/unrelated/foo'']"
  by code_simp

section \<open>CategoryFilter: the policies as filters\<close>

lemma py_any_map: "py_any (map P xs) = (\<exists>x \<in> set xs. P x)"
  by (induction xs) auto

lemma keyword_test: "py_any (map (\<lambda>k. py_in k (lower m)) kws) = contains_keyword kws m"
  by (simp add: py_any_map contains_keyword_def py_in_sublist)

lemma collect_loop:
  "foldl (\<lambda>filtered x. if P x then filtered @ [x] else filtered) acc xs = acc @ filter P xs"
  by (induction xs arbitrary: acc) auto

lemma filter_exploits_payloads_filter:
  "filter_exploits_payloads ms = filter (contains_keyword TOP_TECHNOLOGIES) ms"
  unfolding filter_exploits_payloads_def Let_def keyword_test
  by (simp add: collect_loop)

lemma filter_auxiliary_take:
  "filter_auxiliary ms = take 50 (filter (contains_keyword TOP_SERVICES) ms)"
  unfolding filter_auxiliary_def Let_def keyword_test
  by (simp add: collect_loop)

lemma subseq_take: "subseq (take n xs) xs"
proof -
  have "subseq (take n xs @ []) (take n xs @ drop n xs)"
    by (intro list_emb_append_mono) simp_all
  then show ?thesis by simp
qed

text \<open>
  C4: for every identifier sequence, the service policy \<open>filter_auxiliary\<close> returns
  the first 50 of the identifiers whose lowercased form contains a service keyword,
  in input order: its length is the minimum of 50 and the number of matches, hence
  at most 50, and the result is a subsequence of the input.
\<close>

theorem filter_auxiliary_capped:
  "filter_auxiliary ms = take 50 (filter (contains_keyword TOP_SERVICES) ms) \<and>
   length (filter_auxiliary ms) = min 50 (length (filter (contains_keyword TOP_SERVICES) ms)) \<and>
   length (filter_auxiliary ms) \<le> 50 \<and>
   subseq (filter_auxiliary ms) ms"
proof -
  have "subseq (take 50 (filter (contains_keyword TOP_SERVICES) ms))
          (filter (contains_keyword TOP_SERVICES) ms)"
    by (rule subseq_take)
  moreover have "subseq (filter (contains_keyword TOP_SERVICES) ms) ms"
    by simp
  ultimately have "subseq (take 50 (filter (contains_keyword TOP_SERVICES) ms)) ms"
    by (rule subseq_order.order_trans)
  then show ?thesis
    by (simp add: filter_auxiliary_take min.commute)
qed

theorem filter_auxiliary_capped_witness:
  "filter_auxiliary (replicate 60 ''scanner/http/x'') = replicate 50 ''scanner/http/x'' \<and>
   filter_auxiliary [''auxiliary/scanner/http/foo'', ''auxiliary/scanner/bar'']
     = [''auxiliary/scanner/http/foo'']"
proof -
  have k: "contains_keyword TOP_SERVICES ''scanner/http/x''"
    "contains_keyword TOP_SERVICES ''auxiliary/scanner/http/foo''"
    "\<not> contains_keyword TOP_SERVICES ''auxiliary/scanner/bar''"
    by code_simp+
  have "filter_auxiliary (replicate 60 ''scanner/http/x'') = replicate 50 ''scanner/http/x''"
    using filter_auxiliary_capped [of "replicate 60 ''scanner/http/x''"] k(1) by simp
  moreover have "filter_auxiliary [''auxiliary/scanner/http/foo'', ''auxiliary/scanner/bar'']
     = [''auxiliary/scanner/http/foo'']"
    using filter_auxiliary_capped [of "[''auxiliary/scanner/http/foo'', ''auxiliary/scanner/bar'']"]
      k(2,3) by simp
  ultimately show ?thesis by (rule conjI)
qed

text \<open>
  C6: the technology policy \<open>filter_exploits_payloads\<close> returns exactly the
  identifiers whose lowercased form contains a technology keyword, all of them and
  in input order; it is the policy of the types \<open>exploit\<close> and \<open>payload\<close>. For the
  types \<open>encoder\<close>, \<open>evasion\<close>, \<open>nop\<close> and \<open>post\<close> the driver keeps the sequence
  unchanged.
\<close>

theorem policies_never_truncate:
  "filter_exploits_payloads ms = filter (contains_keyword TOP_TECHNOLOGIES) ms \<and>
   length (filter_exploits_payloads ms) = length (filter (contains_keyword TOP_TECHNOLOGIES) ms) \<and>
   subseq (filter_exploits_payloads ms) ms \<and>
   apply_filtering ''exploit'' ms = filter_exploits_payloads ms \<and>
   apply_filtering ''payload'' ms = filter_exploits_payloads ms \<and>
   apply_filtering ''encoder'' ms = ms \<and>
   apply_filtering ''evasion'' ms = ms \<and>
   apply_filtering ''nop'' ms = ms \<and>
   apply_filtering ''post'' ms = ms"
  by (simp add: filter_exploits_payloads_filter apply_filtering_def)

section \<open>Aggregator: what each category holds\<close>

lemma split_on_not_Nil: "split_on sep s \<noteq> []"
  by (induction s) (auto split: list.splits)

lemma length_split_on: "length (split_on sep s) = Suc (length (filter (\<lambda>c. c = sep) s))"
  by (induction s) (auto split: list.splits)

lemma hd_split_on: "hd (split_on sep s) = takeWhile (\<lambda>c. c \<noteq> sep) s"
  by (induction s) (auto simp: split_on_not_Nil split: list.splits)

lemma split_on_many: "(Suc 0 < length (split_on sep s)) = (sep \<in> set s)"
  by (simp add: length_split_on filter_empty_conv)

lemma organize_step_category: "organize_step d m = dict_append d (category_of m) m"
  by (simp add: organize_step_def category_of_def Let_def)

lemma category_of_no_slash: "CHR ''/'' \<notin> set m \<Longrightarrow> category_of m = ''other''"
  by (simp add: category_of_def Let_def split_on_many)

lemma category_of_slash:
  "CHR ''/'' \<in> set m \<Longrightarrow> category_of m = takeWhile (\<lambda>c. c \<noteq> CHR ''/'') m"
  by (simp add: category_of_def Let_def split_on_many hd_split_on)

lemma map_of_dict_append:
  "map_of (dict_append d k v) =
     (map_of d)(k \<mapsto> (case map_of d k of None \<Rightarrow> [v] | Some vs \<Rightarrow> vs @ [v]))"
  by (induction d k v rule: dict_append.induct) (auto simp: fun_eq_iff)

lemma keys_dict_append:
  "map fst (dict_append d k v) = (if k \<in> set (map fst d) then map fst d else map fst d @ [k])"
  by (induction d k v rule: dict_append.induct) auto

lemma distinct_dict_append:
  "distinct (map fst d) \<Longrightarrow> distinct (map fst (dict_append d k v))"
  by (simp add: keys_dict_append)

lemma sum_dict_append:
  "sum_list (map (\<lambda>kv. length (snd kv)) (dict_append d k v)) =
   Suc (sum_list (map (\<lambda>kv. length (snd kv)) d))"
  by (induction d k v rule: dict_append.induct) auto

lemma organize_fold_map_of:
  "map_of (foldl organize_step d ms) k =
     (case map_of d k of
        None \<Rightarrow> (if filter (\<lambda>m. category_of m = k) ms = [] then None
                  else Some (filter (\<lambda>m. category_of m = k) ms))
      | Some vs \<Rightarrow> Some (vs @ filter (\<lambda>m. category_of m = k) ms))"
proof (induction ms arbitrary: d)
  case Nil
  then show ?case by (simp split: option.splits)
next
  case (Cons m ms)
  show ?case
    by (simp add: Cons.IH)
      (simp add: organize_step_category map_of_dict_append split: option.splits)
qed

lemma organize_fold_distinct:
  "distinct (map fst d) \<Longrightarrow> distinct (map fst (foldl organize_step d ms))"
proof (induction ms arbitrary: d)
  case Nil
  then show ?case by simp
next
  case (Cons m ms)
  from Cons.prems have "distinct (map fst (organize_step d m))"
    by (simp only: organize_step_category distinct_dict_append)
  from Cons.IH [OF this] show ?case by simp
qed

lemma organize_fold_sum:
  "sum_list (map (\<lambda>kv. length (snd kv)) (foldl organize_step d ms)) =
   sum_list (map (\<lambda>kv. length (snd kv)) d) + length ms"
proof (induction ms arbitrary: d)
  case Nil
  then show ?case by simp
next
  case (Cons m ms)
  have "sum_list (map (\<lambda>kv. length (snd kv)) (organize_step d m)) =
        Suc (sum_list (map (\<lambda>kv. length (snd kv)) d))"
    by (simp only: organize_step_category sum_dict_append)
  then show ?case by (simp add: Cons.IH)
qed

lemma organize_map_of:
  "map_of (organize_modules_by_category ms) k =
     (if filter (\<lambda>m. category_of m = k) ms = [] then None
      else Some (filter (\<lambda>m. category_of m = k) ms))"
  by (simp add: organize_modules_by_category_def organize_fold_map_of)

lemma organize_distinct: "distinct (map fst (organize_modules_by_category ms))"
  by (simp add: organize_modules_by_category_def organize_fold_distinct)

lemma organize_entries:
  assumes "(k, vs) \<in> set (organize_modules_by_category ms)"
  shows "vs = filter (\<lambda>m. category_of m = k) ms"
proof -
  from assms have "map_of (organize_modules_by_category ms) k = Some vs"
    using organize_distinct by (simp add: map_of_eq_Some_iff)
  then show ?thesis
    by (simp add: organize_map_of split: if_splits)
qed

lemma organize_member:
  assumes "m \<in> set ms"
  shows "\<exists>vs. map_of (organize_modules_by_category ms) (category_of m) = Some vs \<and> m \<in> set vs"
proof -
  from assms have "filter (\<lambda>m'. category_of m' = category_of m) ms \<noteq> []"
    by (auto simp: filter_empty_conv)
  with assms show ?thesis
    by (simp add: organize_map_of)
qed

text \<open>
  C5: categorization is lossless. In the mapping \<open>organize_modules_by_category\<close>
  returns, the category keys are distinct, the lengths of the category lists add up
  to the length of the input, the list of a category is the input restricted to the
  identifiers of that category (so in input order, duplicates kept), a list holds
  only identifiers of its own category, and every identifier of the input is in the
  list of its category: each identifier is in exactly one list.
\<close>

theorem organize_lossless:
  "distinct (map fst (organize_modules_by_category ms)) \<and>
   sum_list (map (\<lambda>kv. length (snd kv)) (organize_modules_by_category ms)) = length ms \<and>
   (\<forall>kv \<in> set (organize_modules_by_category ms).
      snd kv = filter (\<lambda>m. category_of m = fst kv) ms) \<and>
   (\<forall>kv \<in> set (organize_modules_by_category ms).
      \<forall>m \<in> set (snd kv). category_of m = fst kv) \<and>
   (\<forall>m \<in> set ms. \<exists>vs. map_of (organize_modules_by_category ms) (category_of m) = Some vs
                        \<and> m \<in> set vs)"
proof (intro conjI ballI)
  show "distinct (map fst (organize_modules_by_category ms))"
    by (rule organize_distinct)
  show "sum_list (map (\<lambda>kv. length (snd kv)) (organize_modules_by_category ms)) = length ms"
    by (simp add: organize_modules_by_category_def organize_fold_sum)
next
  fix kv assume "kv \<in> set (organize_modules_by_category ms)"
  then show "snd kv = filter (\<lambda>m. category_of m = fst kv) ms"
    using organize_entries [of "fst kv" "snd kv" ms] by simp
next
  fix kv m assume "kv \<in> set (organize_modules_by_category ms)" and m: "m \<in> set (snd kv)"
  then have "snd kv = filter (\<lambda>m. category_of m = fst kv) ms"
    using organize_entries [of "fst kv" "snd kv" ms] by simp
  with m have "m \<in> set (filter (\<lambda>m. category_of m = fst kv) ms)" by simp
  then show "category_of m = fst kv" by simp
next
  fix m assume "m \<in> set ms"
  then show "\<exists>vs. map_of (organize_modules_by_category ms) (category_of m) = Some vs
                  \<and> m \<in> set vs"
    by (rule organize_member)
qed

text \<open>
  An input with a repeated identifier, identifiers without a slash, one whose first
  segment is the catch-all key itself and one with an empty first segment.
\<close>

lemma organize_example:
  "organize_modules_by_category [''a/b'', ''c'', ''a/d/e'', ''other/x'', ''/z'', ''a/b'']
   = [(''a'', [''a/b'', ''a/d/e'', ''a/b'']), (''other'', [''c'', ''other/x'']), ('''', [''/z''])]"
  by code_simp

theorem organize_lossless_witness:
  "(''a'', [''a/b'', ''a/d/e'', ''a/b''])
     \<in> set (organize_modules_by_category [''a/b'', ''c'', ''a/d/e'', ''other/x'', ''/z'', ''a/b'']) \<and>
   [''a/b'', ''a/d/e'', ''a/b'']
     = filter (\<lambda>m. category_of m = ''a'') [''a/b'', ''c'', ''a/d/e'', ''other/x'', ''/z'', ''a/b''] \<and>
   ''c'' \<in> set [''a/b'', ''c'', ''a/d/e'', ''other/x'', ''/z'', ''a/b''] \<and>
   (\<exists>vs. map_of (organize_modules_by_category [''a/b'', ''c'', ''a/d/e'', ''other/x'', ''/z'', ''a/b''])
            (category_of ''c'') = Some vs \<and> ''c'' \<in> set vs) \<and>
   sum_list (map (\<lambda>kv. length (snd kv))
      (organize_modules_by_category [''a/b'', ''c'', ''a/d/e'', ''other/x'', ''/z'', ''a/b''])) = 6"
proof -
  let ?ms = "[''a/b'', ''c'', ''a/d/e'', ''other/x'', ''/z'', ''a/b'']"
  have e: "(''a'', [''a/b'', ''a/d/e'', ''a/b'']) \<in> set (organize_modules_by_category ?ms)"
    by (simp add: organize_example)
  have c: "''c'' \<in> set ?ms" by simp
  note t = organize_lossless [of ?ms]
  from t e have "snd (''a'', [''a/b'', ''a/d/e'', ''a/b'']) = filter (\<lambda>m. category_of m = fst (''a'', [''a/b'', ''a/d/e'', ''a/b''])) ?ms"
    by blast
  then have 1: "[''a/b'', ''a/d/e'', ''a/b''] = filter (\<lambda>m. category_of m = ''a'') ?ms"
    by (simp only: fst_conv snd_conv)
  from t c have 2: "\<exists>vs. map_of (organize_modules_by_category ?ms) (category_of ''c'') = Some vs \<and> ''c'' \<in> set vs"
    by blast
  from t have 3: "sum_list (map (\<lambda>kv. length (snd kv)) (organize_modules_by_category ?ms)) = 6"
    by simp
  from e 1 c 2 3 show ?thesis by (intro conjI)
qed

text \<open>
  C10: the loop body of \<open>organize_modules_by_category\<close> appends the identifier under
  the key \<open>other\<close> when it contains no \<open>/\<close>, and under its first segment (the text
  before the first \<open>/\<close>) otherwise; the value appended to the list of that key is
  the identifier itself, whole, with its leading segment. Over a whole input, every
  identifier is found, whole, in the list of that key, and the lists hold nothing
  but identifiers of the input.
\<close>

theorem organize_catch_all_full_identifier:
  "organize_step d m =
     dict_append d (if CHR ''/'' \<in> set m then takeWhile (\<lambda>c. c \<noteq> CHR ''/'') m else ''other'') m \<and>
   map_of (dict_append d k m) k = Some ((case map_of d k of None \<Rightarrow> [] | Some vs \<Rightarrow> vs) @ [m]) \<and>
   (m \<in> set ms \<longrightarrow>
      (\<exists>vs. map_of (organize_modules_by_category ms)
               (if CHR ''/'' \<in> set m then takeWhile (\<lambda>c. c \<noteq> CHR ''/'') m else ''other'') = Some vs
            \<and> m \<in> set vs \<and> set vs \<subseteq> set ms))"
proof (intro conjI impI)
  have cat: "category_of m = (if CHR ''/'' \<in> set m then takeWhile (\<lambda>c. c \<noteq> CHR ''/'') m else ''other'')"
    by (simp add: category_of_no_slash category_of_slash)
  show "organize_step d m =
     dict_append d (if CHR ''/'' \<in> set m then takeWhile (\<lambda>c. c \<noteq> CHR ''/'') m else ''other'') m"
    by (simp only: organize_step_category cat)
  show "map_of (dict_append d k m) k = Some ((case map_of d k of None \<Rightarrow> [] | Some vs \<Rightarrow> vs) @ [m])"
    by (simp add: map_of_dict_append split: option.splits)
  assume "m \<in> set ms"
  then obtain vs where vs: "map_of (organize_modules_by_category ms) (category_of m) = Some vs" "m \<in> set vs"
    using organize_member by blast
  from vs(1) have "set vs \<subseteq> set ms"
    by (auto simp: organize_map_of split: if_splits)
  with vs show "\<exists>vs. map_of (organize_modules_by_category ms)
               (if CHR ''/'' \<in> set m then takeWhile (\<lambda>c. c \<noteq> CHR ''/'') m else ''other'') = Some vs
            \<and> m \<in> set vs \<and> set vs \<subseteq> set ms"
    by (simp only: cat) blast
qed

theorem organize_catch_all_full_identifier_witness:
  "organize_step [(''windows'', [''windows/a''])] ''plain''
     = [(''windows'', [''windows/a'']), (''other'', [''plain''])] \<and>
   organize_step [(''windows'', [''windows/a''])] ''windows/smb/x''
     = [(''windows'', [''windows/a'', ''windows/smb/x''])] \<and>
   ''plain'' \<in> set [''windows/a'', ''plain''] \<and>
   (\<exists>vs. map_of (organize_modules_by_category [''windows/a'', ''plain'']) ''other'' = Some vs
         \<and> ''plain'' \<in> set vs \<and> set vs \<subseteq> set [''windows/a'', ''plain''])"
proof -
  let ?d = "[(''windows'', [''windows/a''])]"
  have 1: "organize_step ?d ''plain'' = ?d @ [(''other'', [''plain''])]"
    using organize_catch_all_full_identifier [of ?d "''plain''" "[]" "[]"] by simp
  have 2: "organize_step ?d ''windows/smb/x'' = [(''windows'', [''windows/a'', ''windows/smb/x''])]"
    using organize_catch_all_full_identifier [of ?d "''windows/smb/x''" "[]" "[]"] by simp
  have m: "''plain'' \<in> set [''windows/a'', ''plain'']" by simp
  have 3: "\<exists>vs. map_of (organize_modules_by_category [''windows/a'', ''plain'']) ''other'' = Some vs
         \<and> ''plain'' \<in> set vs \<and> set vs \<subseteq> set [''windows/a'', ''plain'']"
    using organize_catch_all_full_identifier [of "[]" "''plain''" "[]" "[''windows/a'', ''plain'']"] m
    by simp
  from 1 2 m 3 show ?thesis by simp
qed

section \<open>CommandRunner and Driver\<close>

lemma run_msfconsole_command_prints:
  assumes "\<forall>text. pr text = Inr ()"
  shows "\<exists>output. run_msfconsole_command sp pr command = Inr output"
  using assms
  by (simp add: run_msfconsole_command_def Let_def split: sum.splits exn.splits)




lemma dict_set_fresh: "k \<notin> set (map fst d) \<Longrightarrow> dict_set d k v = d @ [(k, v)]"
  by (induction d k v rule: dict_set.induct) auto

lemma enumerate_step_Inr:
  assumes "enumerate_step sp pr r t = Inr r1"
    and "t \<notin> set (map fst (by_type (metadata r)))"
    and "t \<notin> set (map fst (modules r))"
  shows "r1 = r\<lparr>modules := modules r @ [(t, organize_modules_by_category (filtered_modules sp pr t))],
               metadata := (metadata r)
                 \<lparr>by_type := by_type (metadata r) @ [(t, int (length (filtered_modules sp pr t)))],
                  total_modules := total_modules (metadata r)
                                     + int (length (filtered_modules sp pr t))\<rparr>\<rparr>"
proof (cases "run_msfconsole_command sp pr (''search type:'' @ t)")
  case (Inl e)
  with assms(1) show ?thesis
    unfolding enumerate_step_def by (simp split: sum.splits)
next
  case (Inr listing)
  then have kept: "filtered_modules sp pr t = apply_filtering t (parse_module_list listing t)"
    unfolding filtered_modules_def by simp
  from assms(1) show ?thesis
    unfolding enumerate_step_def Inr kept
    by (simp add: Let_def dict_set_fresh [OF assms(2)] dict_set_fresh [OF assms(3)]
          split: sum.splits)
qed

lemma print_filtered_prints: "\<forall>text. pr text = Inr () \<Longrightarrow> print_filtered pr t kept = Inr ()"
  by (simp add: print_filtered_def)

lemma enumerate_step_prints:
  assumes "\<forall>text. pr text = Inr ()"
  shows "\<exists>r1. enumerate_step sp pr r t = Inr r1"
proof -
  obtain listing where "run_msfconsole_command sp pr (''search type:'' @ t) = Inr listing"
    using run_msfconsole_command_prints [OF assms] by blast
  then show ?thesis
    unfolding enumerate_step_def
    by (simp add: assms print_filtered_prints [OF assms] Let_def)
qed

lemma enumerate_loop_prints:
  assumes "\<forall>text. pr text = Inr ()"
  shows "\<exists>r'. enumerate_loop sp pr r ts = Inr r'"
proof (induction ts arbitrary: r)
  case Nil
  show ?case by simp
next
  case (Cons t ts)
  obtain r1 where "enumerate_step sp pr r t = Inr r1"
    using enumerate_step_prints [OF assms] by blast
  with Cons.IH [of r1] show ?case by simp
qed

lemma enumerate_loop_result:
  assumes "enumerate_loop sp pr r ts = Inr r'"
    and "distinct ts"
    and "set ts \<inter> set (map fst (by_type (metadata r))) = {}"
    and "set ts \<inter> set (map fst (modules r)) = {}"
  shows "by_type (metadata r') =
             by_type (metadata r) @ map (\<lambda>t. (t, int (length (filtered_modules sp pr t)))) ts \<and>
         total_modules (metadata r') =
             total_modules (metadata r)
               + sum_list (map (\<lambda>t. int (length (filtered_modules sp pr t))) ts) \<and>
         modules r' =
             modules r @ map (\<lambda>t. (t, organize_modules_by_category (filtered_modules sp pr t))) ts \<and>
         generated_at (metadata r') = generated_at (metadata r)"
  using assms
proof (induction ts arbitrary: r)
  case Nil
  then show ?case by simp
next
  case (Cons t ts)
  from Cons.prems(1) obtain r1 where step: "enumerate_step sp pr r t = Inr r1"
    and rest: "enumerate_loop sp pr r1 ts = Inr r'"
    by (cases "enumerate_step sp pr r t") simp_all
  from Cons.prems have fresh: "t \<notin> set (map fst (by_type (metadata r)))"
    "t \<notin> set (map fst (modules r))"
    by auto
  note r1 = enumerate_step_Inr [OF step fresh]
  from Cons.prems have "distinct ts"
    "set ts \<inter> set (map fst (by_type (metadata r1))) = {}"
    "set ts \<inter> set (map fst (modules r1)) = {}"
    by (auto simp: r1)
  from Cons.IH [OF rest this] show ?case
    by (simp add: r1)
qed

text \<open>
  C3: in every report the driver assembles, the \<open>by_type\<close> mapping has one entry
  for each of the seven item types, in the driver's order, whose count is the
  length of that type's filtered sequence; \<open>total_modules\<close> is the sum of these
  counts; the inventory of each type is the categorization of the same filtered
  sequence; the timestamp is set once, after the loop. A report is assembled
  whenever no \<open>print\<close> raises, whatever the external tool does.
\<close>

theorem report_counts:
  "(enumerate_all_modules subprocess_run print now = Inr r \<longrightarrow>
       by_type (metadata r) =
         map (\<lambda>t. (t, int (length (filtered_modules subprocess_run print t)))) module_types \<and>
       total_modules (metadata r) = sum_list (map snd (by_type (metadata r))) \<and>
       length (by_type (metadata r)) = 7 \<and>
       modules r =
         map (\<lambda>t. (t, organize_modules_by_category (filtered_modules subprocess_run print t)))
           module_types \<and>
       generated_at (metadata r) = Some (now @ ''Z'')) \<and>
   ((\<forall>text. print text = Inr ()) \<longrightarrow>
       (\<exists>r. enumerate_all_modules subprocess_run print now = Inr r))"
proof (intro conjI impI)
  let ?r0 = "\<lparr>metadata = \<lparr>generated_at = None, total_modules = 0, by_type = []\<rparr>, modules = []\<rparr>"
  let ?stamp = "\<lambda>r'. r'\<lparr>metadata := (metadata r')\<lparr>generated_at := Some (now @ ''Z'')\<rparr>\<rparr>"
  have len: "length module_types = 7" by (simp add: module_types_def)
  have dist: "distinct module_types" by (simp add: module_types_def)
  assume "enumerate_all_modules subprocess_run print now = Inr r"
  then obtain r' where loop: "enumerate_loop subprocess_run print ?r0 module_types = Inr r'"
    and r: "r = ?stamp r'"
    unfolding enumerate_all_modules_def
    by (auto simp: Let_def split: sum.splits)
  have "set module_types \<inter> set (map fst (by_type (metadata ?r0))) = {}"
    and "set module_types \<inter> set (map fst (modules ?r0)) = {}"
    by simp_all
  from enumerate_loop_result [OF loop dist this]
  have r': "by_type (metadata r') =
      map (\<lambda>t. (t, int (length (filtered_modules subprocess_run print t)))) module_types"
    "total_modules (metadata r') =
      sum_list (map (\<lambda>t. int (length (filtered_modules subprocess_run print t))) module_types)"
    "modules r' =
      map (\<lambda>t. (t, organize_modules_by_category (filtered_modules subprocess_run print t)))
        module_types"
    by simp_all
  show "by_type (metadata r) =
         map (\<lambda>t. (t, int (length (filtered_modules subprocess_run print t)))) module_types"
    by (simp add: r r')
  show "total_modules (metadata r) = sum_list (map snd (by_type (metadata r)))"
    by (simp add: r r' comp_def)
  show "length (by_type (metadata r)) = 7"
    by (simp add: r r' len)
  show "modules r =
         map (\<lambda>t. (t, organize_modules_by_category (filtered_modules subprocess_run print t)))
           module_types"
    by (simp add: r r')
  show "generated_at (metadata r) = Some (now @ ''Z'')"
    by (simp add: r)
next
  assume ok: "\<forall>text. print text = Inr ()"
  obtain r' where "enumerate_loop subprocess_run print
      \<lparr>metadata = \<lparr>generated_at = None, total_modules = 0, by_type = []\<rparr>, modules = []\<rparr>
      module_types = Inr r'"
    using enumerate_loop_prints [OF ok] by blast
  then show "\<exists>r. enumerate_all_modules subprocess_run print now = Inr r"
    unfolding enumerate_all_modules_def by (simp add: ok Let_def)
qed

text \<open>
  A run in which every message prints, only the \<open>auxiliary\<close> query answers and
  every other one times out: the listing holds two identifiers, the service policy
  keeps one, and the report counts the one.
\<close>

theorem report_counts_witness:
  "parse_module_list ''auxiliary/scanner/http/foo\<newline>auxiliary/scanner/bar\<newline>'' ''auxiliary''
     = [''scanner/http/foo'', ''scanner/bar''] \<and>
   (\<exists>r. enumerate_all_modules
          (\<lambda>cmd. if cmd = [''msfconsole'', ''-q'', ''-x'', ''search type:auxiliary; exit'']
                  then Inr ''auxiliary/scanner/http/foo\<newline>auxiliary/scanner/bar\<newline>''
                  else Inl (TimeoutExpired ''timed out after 300 seconds''))
          (\<lambda>text. Inr ())
          ''2024-05-01T10:00:00'' = Inr r \<and>
        by_type (metadata r) =
          [(''encoder'', 0), (''evasion'', 0), (''nop'', 0), (''post'', 0), (''exploit'', 0),
           (''payload'', 0), (''auxiliary'', 1)] \<and>
        total_modules (metadata r) = 1 \<and>
        map_of (modules r) ''auxiliary'' = Some [(''scanner'', [''scanner/http/foo''])])"
proof -
  let ?sp = "\<lambda>cmd. if cmd = [''msfconsole'', ''-q'', ''-x'', ''search type:auxiliary; exit'']
                  then Inr ''auxiliary/scanner/http/foo\<newline>auxiliary/scanner/bar\<newline>''
                  else Inl (TimeoutExpired ''timed out after 300 seconds'')"
  let ?pr = "\<lambda>text :: string. (Inr () :: exn + unit)"
  let ?now = "''2024-05-01T10:00:00''"
  have raw: "parse_module_list ''auxiliary/scanner/http/foo\<newline>auxiliary/scanner/bar\<newline>'' ''auxiliary''
     = [''scanner/http/foo'', ''scanner/bar'']"
    by code_simp
  have f: "map (filtered_modules ?sp ?pr) module_types
           = [[], [], [], [], [], [], [''scanner/http/foo'']]"
    by code_simp
  have o: "organize_modules_by_category [''scanner/http/foo''] = [(''scanner'', [''scanner/http/foo''])]"
    by code_simp
  from f have fs: "filtered_modules ?sp ?pr ''encoder'' = []" "filtered_modules ?sp ?pr ''evasion'' = []"
    "filtered_modules ?sp ?pr ''nop'' = []" "filtered_modules ?sp ?pr ''post'' = []"
    "filtered_modules ?sp ?pr ''exploit'' = []" "filtered_modules ?sp ?pr ''payload'' = []"
    "filtered_modules ?sp ?pr ''auxiliary'' = [''scanner/http/foo'']"
    by (simp_all only: module_types_def list.map list.inject)
  have prints: "\<forall>text. ?pr text = Inr ()" by simp
  from mp [OF conjunct2 [OF report_counts [of ?sp ?pr ?now
      "\<lparr>metadata = \<lparr>generated_at = None, total_modules = 0, by_type = []\<rparr>,
        modules = []\<rparr>"]] prints]
  obtain r where ret: "enumerate_all_modules ?sp ?pr ?now = Inr r" by blast
  from mp [OF conjunct1 [OF report_counts [of ?sp ?pr ?now r]] ret]
  have r: "by_type (metadata r) = map (\<lambda>t. (t, int (length (filtered_modules ?sp ?pr t)))) module_types"
    "total_modules (metadata r) = sum_list (map snd (by_type (metadata r)))"
    "modules r = map (\<lambda>t. (t, organize_modules_by_category (filtered_modules ?sp ?pr t))) module_types"
    by blast+
  from r(1) have b: "by_type (metadata r) =
          [(''encoder'', 0), (''evasion'', 0), (''nop'', 0), (''post'', 0), (''exploit'', 0),
           (''payload'', 0), (''auxiliary'', 1)]"
    by (simp add: module_types_def fs)
  from r(2) b have t: "total_modules (metadata r) = 1" by simp
  from r(3) have m: "map_of (modules r) ''auxiliary'' = Some [(''scanner'', [''scanner/http/foo''])]"
    by (simp add: module_types_def fs o)
  from raw ret b t m show ?thesis by blast
qed

section \<open>DetailParser: totality and the fields\<close>

lemma info_line_Inr: "\<exists>st'. info_line st l = Inr st'"
  by (simp add: info_line_def Let_def py_index_def split: option.splits)

lemma info_lines_Inr: "\<exists>st'. info_lines st ls = Inr st'"
proof (induction ls arbitrary: st)
  case Nil
  then show ?case by simp
next
  case (Cons l ls)
  obtain st1 where "info_line st l = Inr st1"
    using info_line_Inr by blast
  with Cons.IH [of st1] show ?case by simp
qed

lemma info_line_fixed:
  "info_line st l = Inr st' \<Longrightarrow>
   path (fst st') = path (fst st) \<and> targets (fst st') = targets (fst st) \<and>
   options (fst st') = options (fst st) \<and> payloads (fst st') = payloads (fst st)"
  by (auto simp: info_line_def Let_def py_index_def split: if_splits option.splits)

lemma info_line_name:
  "\<not> startswith (strip l) ''Name:'' \<Longrightarrow> info_line st l = Inr st' \<Longrightarrow>
   name (fst st') = name (fst st)"
  by (auto simp: info_line_def Let_def py_index_def split: if_splits option.splits)

lemma info_line_rank:
  "\<not> py_in ''Rank:'' (strip l) \<Longrightarrow> info_line st l = Inr st' \<Longrightarrow>
   rank (fst st') = rank (fst st)"
  by (auto simp: info_line_def Let_def py_index_def split: if_splits option.splits)

lemma info_line_platform:
  "\<not> py_in ''Platform:'' (strip l) \<Longrightarrow> \<not> py_in ''Available targets:'' (strip l) \<Longrightarrow>
   info_line st l = Inr st' \<Longrightarrow> platform (fst st') = platform (fst st)"
  by (auto simp: info_line_def Let_def py_index_def split: if_splits option.splits)

lemma info_line_description:
  "\<not> py_in ''Description:'' (strip l) \<Longrightarrow> snd st = None \<Longrightarrow> info_line st l = Inr st' \<Longrightarrow>
   description (fst st') = description (fst st) \<and> snd st' = None"
  by (auto simp: info_line_def Let_def py_index_def split: if_splits option.splits)

lemma info_line_platform_grows:
  "info_line st l = Inr st' \<Longrightarrow> prefix (platform (fst st)) (platform (fst st'))"
  by (auto simp: info_line_def Let_def py_index_def split: if_splits option.splits)


lemma info_lines_fixed:
  "info_lines st ls = Inr st' \<Longrightarrow>
   path (fst st') = path (fst st) \<and> targets (fst st') = targets (fst st) \<and>
   options (fst st') = options (fst st) \<and> payloads (fst st') = payloads (fst st)"
proof (induction ls arbitrary: st)
  case Nil
  then show ?case by simp
next
  case (Cons l ls)
  obtain st1 where st1: "info_line st l = Inr st1"
    using info_line_Inr by blast
  with Cons.prems have "info_lines st1 ls = Inr st'" by simp
  from Cons.IH [OF this] info_line_fixed [OF st1] show ?case by simp
qed

lemma info_lines_name:
  "info_lines st ls = Inr st' \<Longrightarrow> \<forall>l \<in> set ls. \<not> startswith (strip l) ''Name:'' \<Longrightarrow>
   name (fst st') = name (fst st)"
proof (induction ls arbitrary: st)
  case Nil
  then show ?case by simp
next
  case (Cons l ls)
  obtain st1 where st1: "info_line st l = Inr st1"
    using info_line_Inr by blast
  with Cons.prems have rest: "info_lines st1 ls = Inr st'" by simp
  from Cons.prems have "\<not> startswith (strip l) ''Name:''" by simp
  from info_line_name [OF this st1] Cons.IH [OF rest] Cons.prems(2) show ?case by simp
qed

lemma info_lines_rank:
  "info_lines st ls = Inr st' \<Longrightarrow> \<forall>l \<in> set ls. \<not> py_in ''Rank:'' (strip l) \<Longrightarrow>
   rank (fst st') = rank (fst st)"
proof (induction ls arbitrary: st)
  case Nil
  then show ?case by simp
next
  case (Cons l ls)
  obtain st1 where st1: "info_line st l = Inr st1"
    using info_line_Inr by blast
  with Cons.prems have rest: "info_lines st1 ls = Inr st'" by simp
  from Cons.prems have "\<not> py_in ''Rank:'' (strip l)" by simp
  from info_line_rank [OF this st1] Cons.IH [OF rest] Cons.prems(2) show ?case by simp
qed

lemma info_lines_platform:
  "info_lines st ls = Inr st' \<Longrightarrow>
   \<forall>l \<in> set ls. \<not> py_in ''Platform:'' (strip l) \<and> \<not> py_in ''Available targets:'' (strip l) \<Longrightarrow>
   platform (fst st') = platform (fst st)"
proof (induction ls arbitrary: st)
  case Nil
  then show ?case by simp
next
  case (Cons l ls)
  obtain st1 where st1: "info_line st l = Inr st1"
    using info_line_Inr by blast
  with Cons.prems have rest: "info_lines st1 ls = Inr st'" by simp
  from Cons.prems have "\<not> py_in ''Platform:'' (strip l)" "\<not> py_in ''Available targets:'' (strip l)"
    by simp_all
  from info_line_platform [OF this st1] Cons.IH [OF rest] Cons.prems(2) show ?case by simp
qed

lemma info_lines_description:
  "info_lines st ls = Inr st' \<Longrightarrow> snd st = None \<Longrightarrow>
   \<forall>l \<in> set ls. \<not> py_in ''Description:'' (strip l) \<Longrightarrow>
   description (fst st') = description (fst st)"
proof (induction ls arbitrary: st)
  case Nil
  then show ?case by simp
next
  case (Cons l ls)
  obtain st1 where st1: "info_line st l = Inr st1"
    using info_line_Inr by blast
  with Cons.prems have rest: "info_lines st1 ls = Inr st'" by simp
  from Cons.prems have "\<not> py_in ''Description:'' (strip l)" by simp
  from info_line_description [OF this Cons.prems(2) st1]
  have "description (fst st1) = description (fst st)" "snd st1 = None" by simp_all
  with Cons.IH [OF rest] Cons.prems(3) show ?case by simp
qed

lemma line_sublist: "l \<in> set (split_on sep s) \<Longrightarrow> sublist l s"
proof (induction s arbitrary: l)
  case Nil
  then show ?case by simp
next
  case (Cons x xs)
  show ?case
  proof (cases "x = sep")
    case True
    with Cons.prems have "l = [] \<or> l \<in> set (split_on sep xs)" by auto
    with Cons.IH show ?thesis by (auto simp: sublist_Cons_right)
  next
    case False
    obtain piece pieces where sp: "split_on sep xs = piece # pieces"
      using split_on_not_Nil [of sep xs] by (cases "split_on sep xs") auto
    with False Cons.prems have "l = x # piece \<or> l \<in> set pieces" by auto
    then show ?thesis
    proof
      assume l: "l = x # piece"
      have "piece = hd (split_on sep xs)" by (simp add: sp)
      then have "prefix piece xs" by (simp add: hd_split_on takeWhile_is_prefix)
      with l show ?thesis by (simp add: sublist_Cons_right)
    next
      assume "l \<in> set pieces"
      then have "l \<in> set (split_on sep xs)" by (simp add: sp)
      from Cons.IH [OF this] show ?thesis by (simp add: sublist_Cons_right)
    qed
  qed
qed

lemma strip_sublist: "sublist (strip l) l"
proof -
  have "sublist (dropWhile isspace (rev (dropWhile isspace l))) (rev (dropWhile isspace l))"
    by simp
  then have "sublist (strip l) (dropWhile isspace l)"
    by (simp add: strip_def sublist_rev_left)
  moreover have "sublist (dropWhile isspace l) l" by simp
  ultimately show ?thesis by (rule sublist_order.order_trans)
qed

lemma keyword_in_text:
  assumes "l \<in> set (split_on sep text)" and "py_in k (strip l)"
  shows "py_in k text"
proof -
  from assms(2) have "sublist k (strip l)" by (simp add: py_in_sublist)
  then have "sublist k l" using strip_sublist by (rule sublist_order.order_trans)
  then have "sublist k text" using line_sublist [OF assms(1)] by (rule sublist_order.order_trans)
  then show ?thesis by (simp add: py_in_sublist)
qed

lemma startswith_py_in: "startswith s p \<Longrightarrow> py_in p s"
  by (simp add: startswith_prefix py_in_sublist)

text \<open>
  C7: on every text, the field extraction of \<open>get_module_info\<close> returns a record
  and raises nothing. The record carries the path it was given and empty
  \<open>targets\<close>, \<open>options\<close> and \<open>payloads\<close>; a field whose marker occurs nowhere in
  the text keeps its default: the name is empty without \<open>Name:\<close>, the description
  without \<open>Description:\<close>, the rank without \<open>Rank:\<close>, and the platform list is
  empty without \<open>Platform:\<close> and \<open>Available targets:\<close>.
\<close>

theorem parse_module_info_total:
  "\<exists>info. parse_module_info module_path output = Inr info \<and>
      path info = module_path \<and> targets info = [] \<and> options info = [] \<and> payloads info = [] \<and>
      (\<not> py_in ''Name:'' output \<longrightarrow> name info = '''') \<and>
      (\<not> py_in ''Description:'' output \<longrightarrow> description info = '''') \<and>
      (\<not> py_in ''Rank:'' output \<longrightarrow> rank info = '''') \<and>
      (\<not> py_in ''Platform:'' output \<and> \<not> py_in ''Available targets:'' output \<longrightarrow>
         platform info = [])"
proof -
  let ?info0 = "\<lparr>path = module_path, name = '''', description = '''', rank = '''',
                  platform = [], targets = [], options = [], payloads = []\<rparr>"
  let ?ls = "split_on CHR 0x0A output"
  obtain st' where st': "info_lines (?info0, None) ?ls = Inr st'"
    using info_lines_Inr by blast
  then have res: "parse_module_info module_path output = Inr (fst st')"
    by (simp add: parse_module_info_def)
  have fixed: "path (fst st') = module_path \<and> targets (fst st') = [] \<and>
      options (fst st') = [] \<and> payloads (fst st') = []"
    using info_lines_fixed [OF st'] by simp
  have n: "name (fst st') = ''''" if "\<not> py_in ''Name:'' output"
  proof -
    from that have "\<forall>l \<in> set ?ls. \<not> startswith (strip l) ''Name:''"
      using keyword_in_text startswith_py_in by blast
    from info_lines_name [OF st' this] show ?thesis by simp
  qed
  have d: "description (fst st') = ''''" if "\<not> py_in ''Description:'' output"
  proof -
    from that have "\<forall>l \<in> set ?ls. \<not> py_in ''Description:'' (strip l)"
      using keyword_in_text by blast
    from info_lines_description [OF st' _ this] show ?thesis by simp
  qed
  have r: "rank (fst st') = ''''" if "\<not> py_in ''Rank:'' output"
  proof -
    from that have "\<forall>l \<in> set ?ls. \<not> py_in ''Rank:'' (strip l)"
      using keyword_in_text by blast
    from info_lines_rank [OF st' this] show ?thesis by simp
  qed
  have p: "platform (fst st') = []"
    if "\<not> py_in ''Platform:'' output \<and> \<not> py_in ''Available targets:'' output"
  proof -
    from that have "\<forall>l \<in> set ?ls. \<not> py_in ''Platform:'' (strip l)
        \<and> \<not> py_in ''Available targets:'' (strip l)"
      using keyword_in_text by blast
    from info_lines_platform [OF st' this] show ?thesis by simp
  qed
  from res fixed n d r p show ?thesis by blast
qed

theorem parse_module_info_total_witness:
  "\<not> py_in ''Name:'' ''@@ garbage :: ,,\<newline> =[ -- ]'' \<and>
   \<not> py_in ''Description:'' ''@@ garbage :: ,,\<newline> =[ -- ]'' \<and>
   \<not> py_in ''Rank:'' ''@@ garbage :: ,,\<newline> =[ -- ]'' \<and>
   \<not> py_in ''Platform:'' ''@@ garbage :: ,,\<newline> =[ -- ]'' \<and>
   \<not> py_in ''Available targets:'' ''@@ garbage :: ,,\<newline> =[ -- ]'' \<and>
   (\<exists>info. parse_module_info ''windows/smb/x'' ''@@ garbage :: ,,\<newline> =[ -- ]'' = Inr info \<and>
      path info = ''windows/smb/x'' \<and> name info = '''' \<and> description info = '''' \<and>
      rank info = '''' \<and> platform info = []) \<and>
   (\<exists>info. parse_module_info ''windows/smb/x'' '''' = Inr info \<and>
      path info = ''windows/smb/x'' \<and> name info = '''' \<and> description info = '''' \<and>
      rank info = '''' \<and> platform info = [])"
proof -
  let ?text = "''@@ garbage :: ,,\<newline> =[ -- ]''"
  have h: "\<not> py_in ''Name:'' ?text" "\<not> py_in ''Description:'' ?text"
    "\<not> py_in ''Rank:'' ?text" "\<not> py_in ''Platform:'' ?text"
    "\<not> py_in ''Available targets:'' ?text"
    by code_simp+
  from parse_module_info_total [of "''windows/smb/x''" ?text] h
  have g: "\<exists>info. parse_module_info ''windows/smb/x'' ?text = Inr info \<and>
      path info = ''windows/smb/x'' \<and> name info = '''' \<and> description info = '''' \<and>
      rank info = '''' \<and> platform info = []"
    by blast
  from parse_module_info_total [of "''windows/smb/x''" "''''"]
  have e: "\<exists>info. parse_module_info ''windows/smb/x'' '''' = Inr info \<and>
      path info = ''windows/smb/x'' \<and> name info = '''' \<and> description info = '''' \<and>
      rank info = '''' \<and> platform info = []"
    by simp blast
  from h g e show ?thesis by (intro conjI)
qed

section \<open>DetailParser: platform lines\<close>

lemma split_on_unfold:
  "split_on sep s =
     takeWhile (\<lambda>c. c \<noteq> sep) s #
     (if sep \<in> set s then split_on sep (tl (dropWhile (\<lambda>c. c \<noteq> sep) s)) else [])"
  by (induction s) (auto simp: split_on_not_Nil hd_split_on split: list.splits)

lemma split_on_second:
  assumes "sep \<in> set s"
  shows "py_index (split_on sep s) (Suc 0)
         = Inr (takeWhile (\<lambda>c. c \<noteq> sep) (tl (dropWhile (\<lambda>c. c \<noteq> sep) s)))"
proof -
  let ?rest = "tl (dropWhile (\<lambda>c. c \<noteq> sep) s)"
  from assms have "split_on sep s = takeWhile (\<lambda>c. c \<noteq> sep) s # split_on sep ?rest"
    using split_on_unfold [of sep s] by simp
  moreover have "split_on sep ?rest = hd (split_on sep ?rest) # tl (split_on sep ?rest)"
    by (simp add: split_on_not_Nil)
  ultimately have "split_on sep s =
      takeWhile (\<lambda>c. c \<noteq> sep) s # takeWhile (\<lambda>c. c \<noteq> sep) ?rest # tl (split_on sep ?rest)"
    by (simp add: hd_split_on)
  then show ?thesis by (simp add: py_index_def)
qed

lemma info_lines_snoc:
  "info_lines st (ls @ [l]) =
     (case info_lines st ls of Inl e \<Rightarrow> Inl e | Inr st' \<Rightarrow> info_line st' l)"
proof (induction ls arbitrary: st)
  case Nil
  show ?case by (simp split: sum.splits)
next
  case (Cons a ls)
  show ?case by (simp add: Cons.IH split: sum.splits)
qed

lemma platform_keyword_colon:
  "py_in ''Platform:'' line \<or> py_in ''Available targets:'' line \<Longrightarrow> CHR '':'' \<in> set line"
proof -
  assume "py_in ''Platform:'' line \<or> py_in ''Available targets:'' line"
  then have "sublist ''Platform:'' line \<or> sublist ''Available targets:'' line"
    by (simp add: py_in_sublist)
  then have "set ''Platform:'' \<subseteq> set line \<or> set ''Available targets:'' \<subseteq> set line"
    using set_mono_sublist by blast
  then show ?thesis by auto
qed

text \<open>
  C9 (amended): take a line that reaches the platform branch, that is, whose
  trimmed form contains \<open>Platform:\<close> or \<open>Available targets:\<close>, does not start with
  \<open>Name:\<close>, contains neither \<open>Description:\<close> nor \<open>Rank:\<close>, and is not taken as
  the description. Whatever lines came before, reading it appends to the platform
  list collected so far the text between the first \<open>:\<close> of the trimmed line and
  the next \<open>:\<close> (or the end of the line), trimmed, split on commas, each piece
  trimmed and the empty pieces left out; nothing else of the state changes.
\<close>

theorem platform_line_accumulates:
  assumes "info_lines st0 before = Inr (info, current_section)"
    and "line = strip line0"
    and "\<not> startswith line ''Name:''"
    and "\<not> py_in ''Description:'' line"
    and "\<not> (current_section = Some ''description'' \<and> line \<noteq> [] \<and> \<not> startswith line ''Module'')"
    and "\<not> py_in ''Rank:'' line"
    and "py_in ''Platform:'' line \<or> py_in ''Available targets:'' line"
  shows "info_lines st0 (before @ [line0]) =
           Inr (info\<lparr>platform := platform info @
                        filter (\<lambda>p. p \<noteq> [])
                          (map strip (split_on CHR '','' (strip
                             (takeWhile (\<lambda>c. c \<noteq> CHR '':'')
                                (tl (dropWhile (\<lambda>c. c \<noteq> CHR '':'') line))))))\<rparr>,
                current_section)"
proof -
  have colon: "CHR '':'' \<in> set (strip line0)"
    using platform_keyword_colon assms(2,7) by simp
  have many: "Suc 0 < length (split_on CHR '':'' (strip line0))"
    using colon by (simp add: split_on_many)
  have "info_line (info, current_section) line0 =
          Inr (info\<lparr>platform := platform info @
                        map strip (filter (\<lambda>p. strip p \<noteq> [])
                          (split_on CHR '','' (strip
                             (takeWhile (\<lambda>c. c \<noteq> CHR '':'')
                                (tl (dropWhile (\<lambda>c. c \<noteq> CHR '':'') line))))))\<rparr>,
                current_section)"
    using assms(2-7) many
    by (simp add: info_line_def Let_def split_on_second [OF colon])
  then show ?thesis
    by (simp add: info_lines_snoc assms(1) filter_map comp_def)
qed

theorem platform_line_accumulates_witness:
  "info_lines (\<lparr>path = ''p'', name = '''', description = '''', rank = '''',
                  platform = [], targets = [], options = [], payloads = []\<rparr>, None)
       [''Platform: Windows, Unix'']
     = Inr (\<lparr>path = ''p'', name = '''', description = '''', rank = '''',
              platform = [''Windows'', ''Unix''], targets = [], options = [], payloads = []\<rparr>, None) \<and>
   ''Available targets: Linux , , BSD : left out'' = strip ''  Available targets: Linux , , BSD : left out  '' \<and>
   \<not> startswith ''Available targets: Linux , , BSD : left out'' ''Name:'' \<and>
   \<not> py_in ''Description:'' ''Available targets: Linux , , BSD : left out'' \<and>
   \<not> py_in ''Rank:'' ''Available targets: Linux , , BSD : left out'' \<and>
   py_in ''Available targets:'' ''Available targets: Linux , , BSD : left out'' \<and>
   info_lines (\<lparr>path = ''p'', name = '''', description = '''', rank = '''',
                  platform = [], targets = [], options = [], payloads = []\<rparr>, None)
       [''Platform: Windows, Unix'', ''  Available targets: Linux , , BSD : left out  '']
     = Inr (\<lparr>path = ''p'', name = '''', description = '''', rank = '''',
              platform = [''Windows'', ''Unix'', ''Linux'', ''BSD''],
              targets = [], options = [], payloads = []\<rparr>, None)"
proof -
  let ?i0 = "\<lparr>path = ''p'', name = '''', description = '''', rank = '''',
                  platform = [], targets = [], options = [], payloads = []\<rparr>"
  let ?i1 = "\<lparr>path = ''p'', name = '''', description = '''', rank = '''',
              platform = [''Windows'', ''Unix''], targets = [], options = [], payloads = []\<rparr>"
  let ?raw = "''  Available targets: Linux , , BSD : left out  ''"
  let ?trimmed = "''Available targets: Linux , , BSD : left out''"
  have h1: "info_lines (?i0, None) [''Platform: Windows, Unix''] = Inr (?i1, None)"
    by code_simp
  have h2: "?trimmed = strip ?raw" by code_simp
  have h3: "\<not> startswith ?trimmed ''Name:''" by code_simp
  have h4: "\<not> py_in ''Description:'' ?trimmed" by code_simp
  have h5: "\<not> (None = Some ''description'' \<and> ?trimmed \<noteq> [] \<and> \<not> startswith ?trimmed ''Module'')" by simp
  have h6: "\<not> py_in ''Rank:'' ?trimmed" by code_simp
  have h7: "py_in ''Available targets:'' ?trimmed" by code_simp
  then have h7': "py_in ''Platform:'' ?trimmed \<or> py_in ''Available targets:'' ?trimmed" ..
  have v: "filter (\<lambda>p. p \<noteq> [])
            (map strip (split_on CHR '','' (strip
               (takeWhile (\<lambda>c. c \<noteq> CHR '':'') (tl (dropWhile (\<lambda>c. c \<noteq> CHR '':'') ?trimmed))))))
           = [''Linux'', ''BSD'']"
    by code_simp
  have "info_lines (?i0, None) ([''Platform: Windows, Unix''] @ [?raw])
        = Inr (?i1\<lparr>platform := platform ?i1 @ [''Linux'', ''BSD'']\<rparr>, None)"
    using platform_line_accumulates [OF h1 h2 h3 h4 h5 h6 h7'] by (simp only: v)
  then have c: "info_lines (?i0, None) [''Platform: Windows, Unix'', ?raw]
        = Inr (\<lparr>path = ''p'', name = '''', description = '''', rank = '''',
              platform = [''Windows'', ''Unix'', ''Linux'', ''BSD''],
              targets = [], options = [], payloads = []\<rparr>, None)"
    by simp
  from h1 h2 h3 h4 h6 h7 c show ?thesis by (intro conjI)
qed

text \<open>
  C9 (as stated, refuted): on the line \<open>Platform: a:b, c\<close> the text after the first
  colon has the pieces \<open>a:b\<close> and \<open>c\<close>, and the parser collects \<open>a\<close> alone, the
  text up to the second colon. On \<open>Platform: a,,b\<close> the empty piece is not
  appended, and a \<open>Platform:\<close> line that follows a \<open>Description:\<close> marker becomes
  the description and adds no platform.
\<close>

theorem platform_after_first_colon_counterexample:
  "parse_module_info ''p'' ''Platform: a:b, c''
     = Inr \<lparr>path = ''p'', name = '''', description = '''', rank = '''',
             platform = [''a''], targets = [], options = [], payloads = []\<rparr> \<and>
   map strip (split_on CHR '','' '' a:b, c'') = [''a:b'', ''c''] \<and>
   parse_module_info ''p'' ''Platform: a,,b''
     = Inr \<lparr>path = ''p'', name = '''', description = '''', rank = '''',
             platform = [''a'', ''b''], targets = [], options = [], payloads = []\<rparr> \<and>
   map strip (split_on CHR '','' '' a,,b'') = [''a'', '''', ''b''] \<and>
   parse_module_info ''p'' ''Description:\<newline>Platform: x''
     = Inr \<lparr>path = ''p'', name = '''', description = ''Platform: x'', rank = '''',
             platform = [], targets = [], options = [], payloads = []\<rparr>"
  by code_simp

end
